theory Spec2Isabelle
  imports Main "HOL-Library.Sublist"
begin

section \<open>The status validator of merge-gatekeeper\<close>

text \<open>
  A shallow embedding of \<^verbatim>\<open>internal/validators/status/validator.go\<close>.
  Go's pair \<^verbatim>\<open>(value, error)\<close> is a value of type \<open>outcome\<close>; a nil pointer is
  \<open>None\<close>; dereferencing a nil pointer, which makes the Go runtime panic, is the
  outcome \<open>Panics\<close>. The \<^verbatim>\<open>context.Context\<close> argument carries nothing the
  decision depends on and is left out.
\<close>

subsection \<open>Constants\<close>

definition successState :: string where
  "successState = ''success''"

definition errorState :: string where
  "errorState = ''error''"

definition pendingState :: string where
  "pendingState = ''pending''"

definition checkRunCompletedStatus :: string where
  "checkRunCompletedStatus = ''completed''"

definition checkRunNeutralConclusion :: string where
  "checkRunNeutralConclusion = ''neutral''"

definition checkRunSuccessConclusion :: string where
  "checkRunSuccessConclusion = ''success''"

subsection \<open>Errors and outcomes\<close>

text \<open>
  \<open>ErrInvalidCombinedStatusResponse\<close> and \<open>ErrInvalidCheckRunResponse\<close> are the two
  sentinel errors, wrapped by \<^verbatim>\<open>fmt.Errorf\<close> together with the two observed
  pointers. \<open>Errors\<close> is \<^verbatim>\<open>multierror.Errors\<close>, a slice of errors, each kept
  as its message. \<open>ClientError\<close> is whatever error the client's call returned.
\<close>

datatype error =
    ErrInvalidCombinedStatusResponse "string option" "string option"
  | ErrInvalidCheckRunResponse "string option" "string option"
  | Errors "string list"
  | ClientError string

datatype 'a outcome = Returns 'a | Fails error | Panics

subsection \<open>The client's data\<close>

text \<open>
  The entries of \<^verbatim>\<open>github.CombinedStatus.Statuses\<close> and of
  \<^verbatim>\<open>github.ListCheckRunsResults.CheckRuns\<close>: every field the validator reads
  is a \<^verbatim>\<open>*string\<close>. Both types and the \<^verbatim>\<open>github.Client\<close> interface
  belong to another package; the interface is taken as a record of its two read
  operations, each a function of owner, repository and reference.
\<close>

record RepoStatus =
  Context :: "string option"
  StatusState :: "string option"

record CheckRun =
  Name :: "string option"
  Status :: "string option"
  Conclusion :: "string option"

record Client =
  GetCombinedStatus :: "string \<Rightarrow> string \<Rightarrow> string \<Rightarrow> error + RepoStatus list"
  ListCheckRunsForRef :: "string \<Rightarrow> string \<Rightarrow> string \<Rightarrow> error + CheckRun list"

subsection \<open>The validator's data\<close>

record ghaStatus =
  Job :: string
  State :: string

record statusValidator =
  repo :: string
  owner :: string
  ref :: string
  selfJobName :: string
  client :: "Client option"

text \<open>The result of \<open>Validate\<close>, the struct \<^verbatim>\<open>status\<close> of the package.\<close>

record status =
  totalJobs :: "string list"
  completeJobs :: "string list"
  succeeded :: bool

subsection \<open>Construction\<close>

text \<open>
  \<^verbatim>\<open>validateFields\<close> appends one error for each violated condition, in the
  order of the source, and returns the slice when it is not empty, nil otherwise.
\<close>

definition validateFields :: "statusValidator \<Rightarrow> error option" where
  "validateFields sv =
     (let errs0 = [];
          errs1 = (if length (repo sv) = 0 then errs0 @ [''repository name is empty''] else errs0);
          errs2 = (if length (owner sv) = 0 then errs1 @ [''repository owner is empty''] else errs1);
          errs3 = (if length (ref sv) = 0 then errs2 @ [''reference of repository is empty''] else errs2);
          errs4 = (if length (selfJobName sv) = 0 then errs3 @ [''self job name is empty''] else errs3);
          errs5 = (if client sv = None then errs4 @ [''github client is empty''] else errs4)
      in if length errs5 \<noteq> 0 then Some (Errors errs5) else None)"

text \<open>
  An \<^verbatim>\<open>Option\<close> is a function that mutates the validator; here it returns
  the mutated validator. The options are applied in order to the zero value that
  holds only the client.
\<close>

type_synonym Option = "statusValidator \<Rightarrow> statusValidator"

definition applyOptions :: "Client option \<Rightarrow> Option list \<Rightarrow> statusValidator" where
  "applyOptions c opts =
     foldl (\<lambda>sv opt. opt sv)
       \<lparr>repo = [], owner = [], ref = [], selfJobName = [], client = c\<rparr> opts"

definition CreateValidator :: "Client option \<Rightarrow> Option list \<Rightarrow> statusValidator outcome" where
  "CreateValidator c opts =
     (let sv = applyOptions c opts
      in case validateFields sv of
           Some err \<Rightarrow> Fails err
         | None \<Rightarrow> Returns sv)"

definition NameOf :: "statusValidator \<Rightarrow> string" where
  "NameOf sv = selfJobName sv"

subsection \<open>Fetching and normalising\<close>

text \<open>The first loop of \<^verbatim>\<open>listGhaStatuses\<close>, over the combined statuses.\<close>

fun combinedLoop :: "ghaStatus list \<Rightarrow> RepoStatus list \<Rightarrow> ghaStatus list outcome" where
  "combinedLoop ghaStatuses [] = Returns ghaStatuses"
| "combinedLoop ghaStatuses (s # ss) =
     (case Context s of
        None \<Rightarrow> Fails (ErrInvalidCombinedStatusResponse (Context s) (StatusState s))
      | Some c \<Rightarrow>
          (case StatusState s of
             None \<Rightarrow> Fails (ErrInvalidCombinedStatusResponse (Context s) (StatusState s))
           | Some st \<Rightarrow> combinedLoop (ghaStatuses @ [\<lparr>Job = c, State = st\<rparr>]) ss))"

text \<open>
  The second loop, over the check runs. \<^verbatim>\<open>*run.Conclusion\<close> is read without a
  nil check: on a completed run with no conclusion the program panics.
\<close>

fun checkRunLoop :: "ghaStatus list \<Rightarrow> CheckRun list \<Rightarrow> ghaStatus list outcome" where
  "checkRunLoop ghaStatuses [] = Returns ghaStatuses"
| "checkRunLoop ghaStatuses (run # runs) =
     (case Name run of
        None \<Rightarrow> Fails (ErrInvalidCheckRunResponse (Name run) (Status run))
      | Some n \<Rightarrow>
          (case Status run of
             None \<Rightarrow> Fails (ErrInvalidCheckRunResponse (Name run) (Status run))
           | Some st \<Rightarrow>
               if st \<noteq> checkRunCompletedStatus
               then checkRunLoop (ghaStatuses @ [\<lparr>Job = n, State = pendingState\<rparr>]) runs
               else (case Conclusion run of
                       None \<Rightarrow> Panics
                     | Some c \<Rightarrow>
                         if c = checkRunNeutralConclusion \<or> c = checkRunSuccessConclusion
                         then checkRunLoop (ghaStatuses @ [\<lparr>Job = n, State = successState\<rparr>]) runs
                         else checkRunLoop (ghaStatuses @ [\<lparr>Job = n, State = errorState\<rparr>]) runs)))"

text \<open>
  \<^verbatim>\<open>listGhaStatuses\<close>: the check runs are requested only after the first loop
  has gone through. Calling a method of a nil client panics.
\<close>

definition listGhaStatuses :: "statusValidator \<Rightarrow> ghaStatus list outcome" where
  "listGhaStatuses sv =
     (case client sv of
        None \<Rightarrow> Panics
      | Some c \<Rightarrow>
          (case GetCombinedStatus c (owner sv) (repo sv) (ref sv) of
             Inl err \<Rightarrow> Fails err
           | Inr combined \<Rightarrow>
               (case combinedLoop [] combined of
                  Fails err \<Rightarrow> Fails err
                | Panics \<Rightarrow> Panics
                | Returns ghaStatuses \<Rightarrow>
                    (case ListCheckRunsForRef c (owner sv) (repo sv) (ref sv) of
                       Inl err \<Rightarrow> Fails err
                     | Inr runs \<Rightarrow> checkRunLoop ghaStatuses runs))))"

subsection \<open>The decision\<close>

text \<open>
  The loop of \<^verbatim>\<open>Validate\<close>; its state is the result under construction and
  \<^verbatim>\<open>successCnt\<close>, which only grows and never exceeds the length of the list.
\<close>

fun validateLoop :: "string \<Rightarrow> status \<times> nat \<Rightarrow> ghaStatus list \<Rightarrow> status \<times> nat" where
  "validateLoop self (st, successCnt) [] = (st, successCnt)"
| "validateLoop self (st, successCnt) (g # gs) =
     (if Job g = self then validateLoop self (st, successCnt + 1) gs
      else
        let st1 = st\<lparr>totalJobs := totalJobs st @ [Job g]\<rparr>
        in if State g = successState
           then validateLoop self (st1\<lparr>completeJobs := completeJobs st1 @ [Job g]\<rparr>, successCnt + 1) gs
           else validateLoop self (st1, successCnt) gs)"

text \<open>What \<^verbatim>\<open>Validate\<close> does with the fetched list, from line 95 on.\<close>

definition validateStatuses :: "string \<Rightarrow> ghaStatus list \<Rightarrow> status" where
  "validateStatuses self ghaStatuses =
     (case validateLoop self
             (\<lparr>totalJobs = [], completeJobs = [], succeeded = True\<rparr>, 0) ghaStatuses of
        (st, successCnt) \<Rightarrow>
          if length ghaStatuses \<noteq> successCnt then st\<lparr>succeeded := False\<rparr> else st)"

definition Validate :: "statusValidator \<Rightarrow> status outcome" where
  "Validate sv =
     (case listGhaStatuses sv of
        Fails err \<Rightarrow> Fails err
      | Panics \<Rightarrow> Panics
      | Returns ghaStatuses \<Rightarrow> Returns (validateStatuses (selfJobName sv) ghaStatuses))"

subsection \<open>Notions used in the statements\<close>

text \<open>
  The success tally in the words of the specification: every job named like the
  validator itself, plus every other job whose state is \<open>success\<close>.
\<close>

definition tally :: "string \<Rightarrow> ghaStatus list \<Rightarrow> nat" where
  "tally self gs =
     length (filter (\<lambda>g. Job g = self) gs) +
     length (filter (\<lambda>g. Job g \<noteq> self \<and> State g = successState) gs)"

text \<open>
  The number of violated construction conditions, one for each of: repository name
  empty, owner empty, reference empty, self job name empty, client nil.
\<close>

definition violations :: "statusValidator \<Rightarrow> nat" where
  "violations sv =
     (if repo sv = [] then 1 else 0) + (if owner sv = [] then 1 else 0) +
     (if ref sv = [] then 1 else 0) + (if selfJobName sv = [] then 1 else 0) +
     (if client sv = None then 1 else 0)"

text \<open>
  An entry is malformed when one of the two pointers the loop checks is nil. A check
  run is unconcluded when it is completed and carries no conclusion.
\<close>

definition malformedStatus :: "RepoStatus \<Rightarrow> bool" where
  "malformedStatus s \<longleftrightarrow> Context s = None \<or> StatusState s = None"

definition malformedRun :: "CheckRun \<Rightarrow> bool" where
  "malformedRun run \<longleftrightarrow> Name run = None \<or> Status run = None"

definition unconcluded :: "CheckRun \<Rightarrow> bool" where
  "unconcluded run \<longleftrightarrow>
     Name run \<noteq> None \<and> Status run = Some checkRunCompletedStatus \<and> Conclusion run = None"

text \<open>
  What a well-formed entry becomes. \<open>runState\<close> follows the specification: a run
  that is not completed is pending; a completed run is a success when its conclusion
  is \<open>neutral\<close> or \<open>success\<close>, and an error otherwise.
\<close>

definition fromStatus :: "RepoStatus \<Rightarrow> ghaStatus" where
  "fromStatus s = \<lparr>Job = the (Context s), State = the (StatusState s)\<rparr>"

definition runState :: "CheckRun \<Rightarrow> string" where
  "runState run =
     (if Status run \<noteq> Some checkRunCompletedStatus then pendingState
      else if Conclusion run = Some checkRunNeutralConclusion
            \<or> Conclusion run = Some checkRunSuccessConclusion then successState
      else errorState)"

definition fromRun :: "CheckRun \<Rightarrow> ghaStatus" where
  "fromRun run = \<lparr>Job = the (Name run), State = runState run\<rparr>"

subsection \<open>A client with fixed responses\<close>

text \<open>
  A test double: both operations succeed and return the given entries. The validator
  built on it is configured as the job \<open>gatekeeper\<close>.
\<close>

definition fixedClient :: "RepoStatus list \<Rightarrow> CheckRun list \<Rightarrow> Client" where
  "fixedClient combined runs =
     \<lparr>GetCombinedStatus = (\<lambda>owner repo ref. Inr combined),
      ListCheckRunsForRef = (\<lambda>owner repo ref. Inr runs)\<rparr>"

definition gatekeeperFor :: "RepoStatus list \<Rightarrow> CheckRun list \<Rightarrow> statusValidator" where
  "gatekeeperFor combined runs =
     \<lparr>repo = ''merge-gatekeeper'', owner = ''upsidr'', ref = ''main'',
      selfJobName = ''gatekeeper'', client = Some (fixedClient combined runs)\<rparr>"

section \<open>Properties of the loops\<close>

lemmas example_defs =
  listGhaStatuses_def gatekeeperFor_def fixedClient_def Validate_def validateStatuses_def
  successState_def errorState_def pendingState_def checkRunCompletedStatus_def
  checkRunNeutralConclusion_def checkRunSuccessConclusion_def

text \<open>
  The loop of \<open>Validate\<close> in closed form: the names of the jobs other than the
  validator's own, those of them that succeeded, and the tally.
\<close>

lemma validateLoop_eq:
  "validateLoop self (st, n) gs =
     (st\<lparr>totalJobs := totalJobs st @ map Job (filter (\<lambda>g. Job g \<noteq> self) gs),
         completeJobs := completeJobs st @
            map Job (filter (\<lambda>g. Job g \<noteq> self \<and> State g = successState) gs)\<rparr>,
      n + tally self gs)"
  by (induction gs arbitrary: st n) (simp_all add: tally_def Let_def)

lemma validateStatuses_eq:
  "validateStatuses self gs =
     \<lparr>totalJobs = map Job (filter (\<lambda>g. Job g \<noteq> self) gs),
      completeJobs = map Job (filter (\<lambda>g. Job g \<noteq> self \<and> State g = successState) gs),
      succeeded = (tally self gs = length gs)\<rparr>"
  by (simp add: validateStatuses_def validateLoop_eq)

lemma tally_le: "tally self gs \<le> length gs"
  by (induction gs) (auto simp: tally_def)

lemma tally_full_iff:
  "tally self gs = length gs \<longleftrightarrow> (\<forall>g\<in>set gs. Job g \<noteq> self \<longrightarrow> State g = successState)"
proof (induction gs)
  case Nil
  show ?case by (simp add: tally_def)
next
  case (Cons g gs)
  have le: "tally self gs \<le> length gs" by (rule tally_le)
  have step: "tally self (g # gs) =
      tally self gs + (if Job g = self \<or> State g = successState then 1 else 0)"
    by (simp add: tally_def)
  show ?case using Cons.IH le unfolding step by auto
qed

lemma tally_self_split:
  "tally self gs =
     length (filter (\<lambda>g. Job g = self) gs) + tally self (filter (\<lambda>g. Job g \<noteq> self) gs)"
  by (induction gs) (auto simp: tally_def)

lemma restate_self:
  "validateStatuses self (map (\<lambda>g. if Job g = self then g\<lparr>State := f g\<rparr> else g) gs)
     = validateStatuses self gs"
proof -
  let ?h = "\<lambda>g. if Job g = self then g\<lparr>State := f g\<rparr> else g"
  have a: "map Job (filter (\<lambda>g. Job g \<noteq> self) (map ?h gs))
         = map Job (filter (\<lambda>g. Job g \<noteq> self) gs)"
    by (induction gs) auto
  have b: "map Job (filter (\<lambda>g. Job g \<noteq> self \<and> State g = successState) (map ?h gs))
         = map Job (filter (\<lambda>g. Job g \<noteq> self \<and> State g = successState) gs)"
    by (induction gs) auto
  have c: "tally self (map ?h gs) = tally self gs"
    by (induction gs) (auto simp: tally_def)
  show ?thesis by (simp add: validateStatuses_eq a b c)
qed

lemma Validate_Returns:
  "listGhaStatuses sv = Returns gs \<Longrightarrow>
   Validate sv = Returns (validateStatuses (selfJobName sv) gs)"
  by (simp add: Validate_def)

text \<open>
  The two loops of \<open>listGhaStatuses\<close> in closed form: each stops at the first
  entry it cannot take.
\<close>

lemma find_Some_set: "find P xs = Some x \<Longrightarrow> x \<in> set xs \<and> P x"
  by (induction xs) (auto split: if_splits)

lemma combinedLoop_eq:
  "combinedLoop acc ss =
     (case find malformedStatus ss of
        Some s \<Rightarrow> Fails (ErrInvalidCombinedStatusResponse (Context s) (StatusState s))
      | None \<Rightarrow> Returns (acc @ map fromStatus ss))"
  by (induction ss arbitrary: acc)
     (auto simp: malformedStatus_def fromStatus_def split: option.splits)

lemma checkRunLoop_eq:
  "checkRunLoop acc runs =
     (case find (\<lambda>r. malformedRun r \<or> unconcluded r) runs of
        Some r \<Rightarrow> if malformedRun r
                  then Fails (ErrInvalidCheckRunResponse (Name r) (Status r))
                  else Panics
      | None \<Rightarrow> Returns (acc @ map fromRun runs))"
  by (induction runs arbitrary: acc)
     (auto simp: malformedRun_def unconcluded_def fromRun_def runState_def split: option.splits)

lemma listGhaStatuses_Returns_iff:
  "listGhaStatuses sv = Returns gs \<longleftrightarrow>
     (\<exists>c combined runs.
        client sv = Some c \<and>
        GetCombinedStatus c (owner sv) (repo sv) (ref sv) = Inr combined \<and>
        ListCheckRunsForRef c (owner sv) (repo sv) (ref sv) = Inr runs \<and>
        (\<forall>s\<in>set combined. \<not> malformedStatus s) \<and>
        (\<forall>r\<in>set runs. \<not> malformedRun r \<and> \<not> unconcluded r) \<and>
        gs = map fromStatus combined @ map fromRun runs)"
  by (auto simp: listGhaStatuses_def combinedLoop_eq checkRunLoop_eq find_None_iff
           split: option.splits sum.splits outcome.splits if_splits
           dest: find_Some_set)

lemma listGhaStatuses_shape:
  assumes "listGhaStatuses sv = Returns gs"
  obtains c combined runs where
    "client sv = Some c"
    "GetCombinedStatus c (owner sv) (repo sv) (ref sv) = Inr combined"
    "ListCheckRunsForRef c (owner sv) (repo sv) (ref sv) = Inr runs"
    "\<forall>s\<in>set combined. \<not> malformedStatus s"
    "\<forall>r\<in>set runs. \<not> malformedRun r \<and> \<not> unconcluded r"
    "gs = map fromStatus combined @ map fromRun runs"
  using assms unfolding listGhaStatuses_Returns_iff by blast

lemma listGhaStatuses_runs:
  assumes "client sv = Some c"
    and "GetCombinedStatus c (owner sv) (repo sv) (ref sv) = Inr combined"
    and "\<forall>s\<in>set combined. \<not> malformedStatus s"
    and "ListCheckRunsForRef c (owner sv) (repo sv) (ref sv) = Inr runs"
  shows "listGhaStatuses sv =
     (case find (\<lambda>r. malformedRun r \<or> unconcluded r) runs of
        Some r \<Rightarrow> if malformedRun r
                  then Fails (ErrInvalidCheckRunResponse (Name r) (Status r))
                  else Panics
      | None \<Rightarrow> Returns (map fromStatus combined @ map fromRun runs))"
proof -
  have "find malformedStatus combined = None" using assms(3) by (simp add: find_None_iff)
  then show ?thesis
    using assms(1,2,4) by (simp add: listGhaStatuses_def combinedLoop_eq checkRunLoop_eq)
qed

lemma runState_cases:
  "runState run = successState \<or> runState run = errorState \<or> runState run = pendingState"
  by (simp add: runState_def)

text \<open>
  A malformed combined status makes the fetch, and with it \<open>Validate\<close>, fail with
  the error of the combined statuses. A malformed check run does the same with the
  error of the check runs, as long as no check run is unconcluded.
\<close>

lemma Validate_malformed_entry:
  assumes "client sv = Some c"
    and "GetCombinedStatus c (owner sv) (repo sv) (ref sv) = Inr combined"
  shows "(\<exists>s\<in>set combined. malformedStatus s) \<longrightarrow>
           (\<exists>s\<in>set combined. malformedStatus s \<and>
              listGhaStatuses sv = Fails (ErrInvalidCombinedStatusResponse (Context s) (StatusState s)) \<and>
              Validate sv = Fails (ErrInvalidCombinedStatusResponse (Context s) (StatusState s)))"
    and "(\<forall>s\<in>set combined. \<not> malformedStatus s) \<and>
         ListCheckRunsForRef c (owner sv) (repo sv) (ref sv) = Inr runs \<and>
         (\<exists>r\<in>set runs. malformedRun r) \<and> (\<forall>r\<in>set runs. \<not> unconcluded r) \<longrightarrow>
           (\<exists>r\<in>set runs. malformedRun r \<and>
              listGhaStatuses sv = Fails (ErrInvalidCheckRunResponse (Name r) (Status r)) \<and>
              Validate sv = Fails (ErrInvalidCheckRunResponse (Name r) (Status r)))"
proof -
  show "(\<exists>s\<in>set combined. malformedStatus s) \<longrightarrow>
           (\<exists>s\<in>set combined. malformedStatus s \<and>
              listGhaStatuses sv = Fails (ErrInvalidCombinedStatusResponse (Context s) (StatusState s)) \<and>
              Validate sv = Fails (ErrInvalidCombinedStatusResponse (Context s) (StatusState s)))"
  proof
    assume "\<exists>s\<in>set combined. malformedStatus s"
    then obtain s where s: "find malformedStatus combined = Some s"
      by (cases "find malformedStatus combined") (auto simp: find_None_iff)
    then have l: "listGhaStatuses sv =
        Fails (ErrInvalidCombinedStatusResponse (Context s) (StatusState s))"
      using assms by (simp add: listGhaStatuses_def combinedLoop_eq)
    from s have "s \<in> set combined \<and> malformedStatus s" by (rule find_Some_set)
    then show "\<exists>s\<in>set combined. malformedStatus s \<and>
              listGhaStatuses sv = Fails (ErrInvalidCombinedStatusResponse (Context s) (StatusState s)) \<and>
              Validate sv = Fails (ErrInvalidCombinedStatusResponse (Context s) (StatusState s))"
      using l by (auto simp: Validate_def)
  qed
next
  show "(\<forall>s\<in>set combined. \<not> malformedStatus s) \<and>
         ListCheckRunsForRef c (owner sv) (repo sv) (ref sv) = Inr runs \<and>
         (\<exists>r\<in>set runs. malformedRun r) \<and> (\<forall>r\<in>set runs. \<not> unconcluded r) \<longrightarrow>
           (\<exists>r\<in>set runs. malformedRun r \<and>
              listGhaStatuses sv = Fails (ErrInvalidCheckRunResponse (Name r) (Status r)) \<and>
              Validate sv = Fails (ErrInvalidCheckRunResponse (Name r) (Status r)))"
  proof
    assume a: "(\<forall>s\<in>set combined. \<not> malformedStatus s) \<and>
         ListCheckRunsForRef c (owner sv) (repo sv) (ref sv) = Inr runs \<and>
         (\<exists>r\<in>set runs. malformedRun r) \<and> (\<forall>r\<in>set runs. \<not> unconcluded r)"
    then obtain r where r: "find (\<lambda>r. malformedRun r \<or> unconcluded r) runs = Some r"
      by (cases "find (\<lambda>r. malformedRun r \<or> unconcluded r) runs") (auto simp: find_None_iff)
    then have m: "r \<in> set runs" "malformedRun r" using a by (auto dest: find_Some_set)
    have "listGhaStatuses sv = Fails (ErrInvalidCheckRunResponse (Name r) (Status r))"
      using listGhaStatuses_runs [OF assms(1,2)] a r m(2) by simp
    then show "\<exists>r\<in>set runs. malformedRun r \<and>
              listGhaStatuses sv = Fails (ErrInvalidCheckRunResponse (Name r) (Status r)) \<and>
              Validate sv = Fails (ErrInvalidCheckRunResponse (Name r) (Status r))"
      using m by (auto simp: Validate_def)
  qed
qed

section \<open>The specification, statement by statement\<close>

subsection \<open>C1: the decision rule\<close>

text \<open>
  C1. Whenever the fetch returns a list of jobs, \<open>Validate\<close> returns a result; the
  counter of its loop ends as the tally of the specification; \<open>succeeded\<close> is true
  exactly when that tally equals the number of fetched jobs; and when no job was
  fetched, \<open>succeeded\<close> is true and both lists of names are empty.
\<close>

theorem Validate_succeeded_iff_tally:
  assumes "listGhaStatuses sv = Returns gs"
  shows "\<exists>st. Validate sv = Returns st \<and>
           snd (validateLoop (selfJobName sv)
                  (\<lparr>totalJobs = [], completeJobs = [], succeeded = True\<rparr>, 0) gs)
             = tally (selfJobName sv) gs \<and>
           (succeeded st \<longleftrightarrow> tally (selfJobName sv) gs = length gs) \<and>
           (gs = [] \<longrightarrow> succeeded st \<and> totalJobs st = [] \<and> completeJobs st = [])"
  using assms
  by (simp add: Validate_Returns validateStatuses_eq validateLoop_eq tally_def)

text \<open>
  At no job at all, and at one pending job beside the validator's own.
\<close>

theorem Validate_succeeded_iff_tally_witness:
  "listGhaStatuses (gatekeeperFor [] []) = Returns [] \<and>
   Validate (gatekeeperFor [] []) =
     Returns \<lparr>totalJobs = [], completeJobs = [], succeeded = True\<rparr> \<and>
   listGhaStatuses
     (gatekeeperFor [\<lparr>Context = Some ''lint'', StatusState = Some ''pending''\<rparr>,
                     \<lparr>Context = Some ''gatekeeper'', StatusState = Some ''pending''\<rparr>] [])
     = Returns [\<lparr>Job = ''lint'', State = ''pending''\<rparr>,
                \<lparr>Job = ''gatekeeper'', State = ''pending''\<rparr>] \<and>
   tally ''gatekeeper'' [\<lparr>Job = ''lint'', State = ''pending''\<rparr>,
                         \<lparr>Job = ''gatekeeper'', State = ''pending''\<rparr>] = 1 \<and>
   Validate
     (gatekeeperFor [\<lparr>Context = Some ''lint'', StatusState = Some ''pending''\<rparr>,
                     \<lparr>Context = Some ''gatekeeper'', StatusState = Some ''pending''\<rparr>] [])
     = Returns \<lparr>totalJobs = [''lint''], completeJobs = [], succeeded = False\<rparr>"
proof -
  have h0: "listGhaStatuses (gatekeeperFor [] []) = Returns []"
    by (simp add: example_defs)
  have h1: "listGhaStatuses
     (gatekeeperFor [\<lparr>Context = Some ''lint'', StatusState = Some ''pending''\<rparr>,
                     \<lparr>Context = Some ''gatekeeper'', StatusState = Some ''pending''\<rparr>] [])
     = Returns [\<lparr>Job = ''lint'', State = ''pending''\<rparr>,
                \<lparr>Job = ''gatekeeper'', State = ''pending''\<rparr>]"
    by (simp add: example_defs)
  from Validate_succeeded_iff_tally [OF h0] Validate_succeeded_iff_tally [OF h1]
  show ?thesis
    using h0 h1 by (simp add: example_defs tally_def)
qed

subsection \<open>C2: the validator's own job\<close>

text \<open>
  C2. Whenever the fetch returns, the validator's own name is not among
  \<open>totalJobs\<close>; every job of that name adds one to the counter; replacing the
  states of these jobs by any others leaves the whole result unchanged; dropping them
  leaves \<open>succeeded\<close> unchanged; and when \<open>succeeded\<close> is false, some job of another
  name is not in state \<open>success\<close>.
\<close>

theorem Validate_self_job_never_blocks:
  assumes "listGhaStatuses sv = Returns gs"
  shows "\<exists>st. Validate sv = Returns st \<and>
           selfJobName sv \<notin> set (totalJobs st) \<and>
           snd (validateLoop (selfJobName sv)
                  (\<lparr>totalJobs = [], completeJobs = [], succeeded = True\<rparr>, 0) gs)
             = length (filter (\<lambda>g. Job g = selfJobName sv) gs) +
               snd (validateLoop (selfJobName sv)
                      (\<lparr>totalJobs = [], completeJobs = [], succeeded = True\<rparr>, 0)
                      (filter (\<lambda>g. Job g \<noteq> selfJobName sv) gs)) \<and>
           (\<forall>f. validateStatuses (selfJobName sv)
                  (map (\<lambda>g. if Job g = selfJobName sv then g\<lparr>State := f g\<rparr> else g) gs) = st) \<and>
           succeeded (validateStatuses (selfJobName sv)
                        (filter (\<lambda>g. Job g \<noteq> selfJobName sv) gs)) = succeeded st \<and>
           (\<not> succeeded st \<longrightarrow>
              (\<exists>g\<in>set gs. Job g \<noteq> selfJobName sv \<and> State g \<noteq> successState))"
proof -
  let ?self = "selfJobName sv"
  let ?st = "validateStatuses ?self gs"
  have v: "Validate sv = Returns ?st" using assms by (rule Validate_Returns)
  have t: "?self \<notin> set (totalJobs ?st)" by (auto simp: validateStatuses_eq)
  have n: "snd (validateLoop ?self (\<lparr>totalJobs = [], completeJobs = [], succeeded = True\<rparr>, 0) gs)
             = length (filter (\<lambda>g. Job g = ?self) gs) +
               snd (validateLoop ?self (\<lparr>totalJobs = [], completeJobs = [], succeeded = True\<rparr>, 0)
                      (filter (\<lambda>g. Job g \<noteq> ?self) gs))"
    using tally_self_split [of ?self gs] by (simp add: validateLoop_eq)
  have r: "\<forall>f. validateStatuses ?self
                  (map (\<lambda>g. if Job g = ?self then g\<lparr>State := f g\<rparr> else g) gs) = ?st"
    by (simp add: restate_self)
  have s: "succeeded (validateStatuses ?self (filter (\<lambda>g. Job g \<noteq> ?self) gs)) = succeeded ?st"
    by (auto simp: validateStatuses_eq tally_full_iff)
  have c: "\<not> succeeded ?st \<longrightarrow> (\<exists>g\<in>set gs. Job g \<noteq> ?self \<and> State g \<noteq> successState)"
    by (auto simp: validateStatuses_eq tally_full_iff)
  from v t n r s c show ?thesis by blast
qed

text \<open>
  The validator's own job in state \<open>error\<close> and \<open>pending\<close> beside a successful
  job, and in state \<open>error\<close> beside a pending one.
\<close>

theorem Validate_self_job_never_blocks_witness:
  "listGhaStatuses
     (gatekeeperFor [\<lparr>Context = Some ''gatekeeper'', StatusState = Some ''error''\<rparr>,
                     \<lparr>Context = Some ''lint'', StatusState = Some ''success''\<rparr>]
                    [\<lparr>Name = Some ''gatekeeper'', Status = Some ''in_progress'', Conclusion = None\<rparr>])
     = Returns [\<lparr>Job = ''gatekeeper'', State = ''error''\<rparr>,
                \<lparr>Job = ''lint'', State = ''success''\<rparr>,
                \<lparr>Job = ''gatekeeper'', State = ''pending''\<rparr>] \<and>
   Validate
     (gatekeeperFor [\<lparr>Context = Some ''gatekeeper'', StatusState = Some ''error''\<rparr>,
                     \<lparr>Context = Some ''lint'', StatusState = Some ''success''\<rparr>]
                    [\<lparr>Name = Some ''gatekeeper'', Status = Some ''in_progress'', Conclusion = None\<rparr>])
     = Returns \<lparr>totalJobs = [''lint''], completeJobs = [''lint''], succeeded = True\<rparr> \<and>
   listGhaStatuses
     (gatekeeperFor [\<lparr>Context = Some ''gatekeeper'', StatusState = Some ''error''\<rparr>,
                     \<lparr>Context = Some ''lint'', StatusState = Some ''pending''\<rparr>] [])
     = Returns [\<lparr>Job = ''gatekeeper'', State = ''error''\<rparr>,
                \<lparr>Job = ''lint'', State = ''pending''\<rparr>] \<and>
   Validate
     (gatekeeperFor [\<lparr>Context = Some ''gatekeeper'', StatusState = Some ''error''\<rparr>,
                     \<lparr>Context = Some ''lint'', StatusState = Some ''pending''\<rparr>] [])
     = Returns \<lparr>totalJobs = [''lint''], completeJobs = [], succeeded = False\<rparr>"
proof -
  have h0: "listGhaStatuses
     (gatekeeperFor [\<lparr>Context = Some ''gatekeeper'', StatusState = Some ''error''\<rparr>,
                     \<lparr>Context = Some ''lint'', StatusState = Some ''success''\<rparr>]
                    [\<lparr>Name = Some ''gatekeeper'', Status = Some ''in_progress'', Conclusion = None\<rparr>])
     = Returns [\<lparr>Job = ''gatekeeper'', State = ''error''\<rparr>,
                \<lparr>Job = ''lint'', State = ''success''\<rparr>,
                \<lparr>Job = ''gatekeeper'', State = ''pending''\<rparr>]"
    by (simp add: example_defs)
  have h1: "listGhaStatuses
     (gatekeeperFor [\<lparr>Context = Some ''gatekeeper'', StatusState = Some ''error''\<rparr>,
                     \<lparr>Context = Some ''lint'', StatusState = Some ''pending''\<rparr>] [])
     = Returns [\<lparr>Job = ''gatekeeper'', State = ''error''\<rparr>,
                \<lparr>Job = ''lint'', State = ''pending''\<rparr>]"
    by (simp add: example_defs)
  from Validate_self_job_never_blocks [OF h0] Validate_self_job_never_blocks [OF h1]
  show ?thesis
    using h0 h1 by (simp add: example_defs)
qed

subsection \<open>C3: the state of a check run\<close>

text \<open>
  C3. When both requests succeed, every combined status has its context and its
  state, and every check run has its name, its status and, if it is completed, its
  conclusion, then the fetch returns one job for each entry, and the check run at
  position \<open>i\<close> is the job at position \<open>i\<close> after the combined statuses, under its
  own name: in state \<open>pending\<close> when its status is not \<open>completed\<close>, whatever its
  conclusion; and when its status is \<open>completed\<close>, in state \<open>success\<close> for the
  conclusions \<open>neutral\<close> and \<open>success\<close> and in state \<open>error\<close> for every other
  conclusion.
\<close>

theorem checkRun_normalisation:
  assumes "client sv = Some c"
    and "GetCombinedStatus c (owner sv) (repo sv) (ref sv) = Inr combined"
    and "\<forall>s\<in>set combined. Context s \<noteq> None \<and> StatusState s \<noteq> None"
    and "ListCheckRunsForRef c (owner sv) (repo sv) (ref sv) = Inr runs"
    and "\<forall>r\<in>set runs. Name r \<noteq> None \<and> Status r \<noteq> None \<and>
           (Status r = Some checkRunCompletedStatus \<longrightarrow> Conclusion r \<noteq> None)"
    and "i < length runs"
    and "Name (runs ! i) = Some n"
    and "Status (runs ! i) = Some s"
  shows "\<exists>gs. listGhaStatuses sv = Returns gs \<and>
           length gs = length combined + length runs \<and>
           Job (gs ! (length combined + i)) = n \<and>
           (s \<noteq> checkRunCompletedStatus \<longrightarrow>
              State (gs ! (length combined + i)) = pendingState) \<and>
           (s = checkRunCompletedStatus \<longrightarrow>
              (\<exists>concl. Conclusion (runs ! i) = Some concl \<and>
                 (concl = checkRunNeutralConclusion \<or> concl = checkRunSuccessConclusion \<longrightarrow>
                    State (gs ! (length combined + i)) = successState) \<and>
                 (concl \<noteq> checkRunNeutralConclusion \<and> concl \<noteq> checkRunSuccessConclusion \<longrightarrow>
                    State (gs ! (length combined + i)) = errorState)))"
proof -
  let ?gs = "map fromStatus combined @ map fromRun runs"
  have m: "\<forall>s\<in>set combined. \<not> malformedStatus s"
    using assms(3) by (simp add: malformedStatus_def)
  have "\<forall>r\<in>set runs. \<not> (malformedRun r \<or> unconcluded r)"
    using assms(5) by (auto simp: malformedRun_def unconcluded_def)
  then have "find (\<lambda>r. malformedRun r \<or> unconcluded r) runs = None"
    by (simp add: find_None_iff)
  then have l: "listGhaStatuses sv = Returns ?gs"
    using listGhaStatuses_runs [OF assms(1,2) m assms(4)] by simp
  have g: "?gs ! (length combined + i) = fromRun (runs ! i)"
    using assms(6) by (simp add: nth_append)
  have "runs ! i \<in> set runs" using assms(6) by simp
  then have u: "Status (runs ! i) = Some checkRunCompletedStatus \<longrightarrow> Conclusion (runs ! i) \<noteq> None"
    using assms(5) by blast
  have p: "Job (?gs ! (length combined + i)) = n \<and>
           (s \<noteq> checkRunCompletedStatus \<longrightarrow>
              State (?gs ! (length combined + i)) = pendingState) \<and>
           (s = checkRunCompletedStatus \<longrightarrow>
              (\<exists>concl. Conclusion (runs ! i) = Some concl \<and>
                 (concl = checkRunNeutralConclusion \<or> concl = checkRunSuccessConclusion \<longrightarrow>
                    State (?gs ! (length combined + i)) = successState) \<and>
                 (concl \<noteq> checkRunNeutralConclusion \<and> concl \<noteq> checkRunSuccessConclusion \<longrightarrow>
                    State (?gs ! (length combined + i)) = errorState)))"
    using u assms(7,8) unfolding g by (auto simp: fromRun_def runState_def)
  have len: "length ?gs = length combined + length runs" by simp
  from l len p show ?thesis by blast
qed

text \<open>
  A run in progress that carries a conclusion, a neutral run, a successful run and a
  run that timed out.
\<close>

theorem checkRun_normalisation_witness:
  "listGhaStatuses
     (gatekeeperFor [\<lparr>Context = Some ''lint'', StatusState = Some ''success''\<rparr>]
        [\<lparr>Name = Some ''build'', Status = Some ''in_progress'', Conclusion = Some ''success''\<rparr>,
         \<lparr>Name = Some ''docs'', Status = Some ''completed'', Conclusion = Some ''neutral''\<rparr>,
         \<lparr>Name = Some ''unit'', Status = Some ''completed'', Conclusion = Some ''success''\<rparr>,
         \<lparr>Name = Some ''test'', Status = Some ''completed'', Conclusion = Some ''timed_out''\<rparr>])
     = Returns [\<lparr>Job = ''lint'', State = ''success''\<rparr>,
                \<lparr>Job = ''build'', State = ''pending''\<rparr>,
                \<lparr>Job = ''docs'', State = ''success''\<rparr>,
                \<lparr>Job = ''unit'', State = ''success''\<rparr>,
                \<lparr>Job = ''test'', State = ''error''\<rparr>] \<and>
   ''in_progress'' \<noteq> checkRunCompletedStatus \<and>
   ''completed'' = checkRunCompletedStatus \<and>
   ''neutral'' = checkRunNeutralConclusion \<and>
   ''success'' = checkRunSuccessConclusion \<and>
   ''timed_out'' \<noteq> checkRunNeutralConclusion \<and>
   ''timed_out'' \<noteq> checkRunSuccessConclusion \<and>
   pendingState = ''pending'' \<and> successState = ''success'' \<and> errorState = ''error''"
proof -
  let ?combined = "[\<lparr>Context = Some ''lint'', StatusState = Some ''success''\<rparr>]"
  let ?runs = "[\<lparr>Name = Some ''build'', Status = Some ''in_progress'', Conclusion = Some ''success''\<rparr>,
         \<lparr>Name = Some ''docs'', Status = Some ''completed'', Conclusion = Some ''neutral''\<rparr>,
         \<lparr>Name = Some ''unit'', Status = Some ''completed'', Conclusion = Some ''success''\<rparr>,
         \<lparr>Name = Some ''test'', Status = Some ''completed'', Conclusion = Some ''timed_out''\<rparr>]"
  let ?sv = "gatekeeperFor ?combined ?runs"
  have c: "client ?sv = Some (fixedClient ?combined ?runs)"
    by (simp add: gatekeeperFor_def)
  have g: "GetCombinedStatus (fixedClient ?combined ?runs) (owner ?sv) (repo ?sv) (ref ?sv)
             = Inr ?combined"
    by (simp add: fixedClient_def)
  have r: "ListCheckRunsForRef (fixedClient ?combined ?runs) (owner ?sv) (repo ?sv) (ref ?sv)
             = Inr ?runs"
    by (simp add: fixedClient_def)
  have wc: "\<forall>s\<in>set ?combined. Context s \<noteq> None \<and> StatusState s \<noteq> None"
    by simp
  have wr: "\<forall>r\<in>set ?runs. Name r \<noteq> None \<and> Status r \<noteq> None \<and>
           (Status r = Some checkRunCompletedStatus \<longrightarrow> Conclusion r \<noteq> None)"
    by simp
  have i0: "0 < length ?runs" and i1: "1 < length ?runs" and i2: "2 < length ?runs"
    and i3: "3 < length ?runs"
    by simp_all
  have n0: "Name (?runs ! 0) = Some ''build''" and s0: "Status (?runs ! 0) = Some ''in_progress''"
    and n1: "Name (?runs ! 1) = Some ''docs''" and s1: "Status (?runs ! 1) = Some ''completed''"
    and n2: "Name (?runs ! 2) = Some ''unit''" and s2: "Status (?runs ! 2) = Some ''completed''"
    and n3: "Name (?runs ! 3) = Some ''test''" and s3: "Status (?runs ! 3) = Some ''completed''"
    by simp_all
  from checkRun_normalisation [OF c g wc r wr i0 n0 s0]
       checkRun_normalisation [OF c g wc r wr i1 n1 s1]
       checkRun_normalisation [OF c g wc r wr i2 n2 s2]
       checkRun_normalisation [OF c g wc r wr i3 n3 s3]
  show ?thesis
    by (simp add: example_defs)
qed

subsection \<open>C4: malformed entries\<close>

text \<open>
  C4. The specification lets every fetch with a malformed check run fail with the
  error of the check runs. Here the first check run is completed and has no conclusion, the second
  has no name: the loop reads the missing conclusion of the first run before it
  reaches the second, and \<open>Validate\<close> panics instead of returning the error.
\<close>

theorem Validate_panics_before_malformed_run:
  "Validate
     (gatekeeperFor []
        [\<lparr>Name = Some ''build'', Status = Some ''completed'', Conclusion = None\<rparr>,
         \<lparr>Name = None, Status = Some ''queued'', Conclusion = None\<rparr>])
     = Panics"
  by (simp add: example_defs)

subsection \<open>C5: construction\<close>

text \<open>
  C5. Once the options are applied, \<open>CreateValidator\<close> returns the validator when
  all five conditions hold, and then no condition is violated; in every other case it
  returns a single error that collects as many messages as conditions are violated,
  at least one.
\<close>

theorem CreateValidator_all_violations:
  "(if repo (applyOptions c opts) \<noteq> [] \<and> owner (applyOptions c opts) \<noteq> [] \<and>
       ref (applyOptions c opts) \<noteq> [] \<and> selfJobName (applyOptions c opts) \<noteq> [] \<and>
       client (applyOptions c opts) \<noteq> None
    then CreateValidator c opts = Returns (applyOptions c opts) \<and>
         violations (applyOptions c opts) = 0
    else \<exists>errs. CreateValidator c opts = Fails (Errors errs) \<and>
           length errs = violations (applyOptions c opts) \<and>
           0 < violations (applyOptions c opts))"
  by (simp add: CreateValidator_def validateFields_def violations_def Let_def)

text \<open>
  With all four options and a client; and with neither an owner, a self job name
  nor a client.
\<close>

theorem CreateValidator_all_violations_witness:
  "CreateValidator (Some (fixedClient [] []))
     [\<lambda>sv. sv\<lparr>repo := ''merge-gatekeeper''\<rparr>, \<lambda>sv. sv\<lparr>owner := ''upsidr''\<rparr>,
      \<lambda>sv. sv\<lparr>ref := ''main''\<rparr>, \<lambda>sv. sv\<lparr>selfJobName := ''gatekeeper''\<rparr>]
     = Returns (gatekeeperFor [] []) \<and>
   CreateValidator None [\<lambda>sv. sv\<lparr>repo := ''merge-gatekeeper''\<rparr>, \<lambda>sv. sv\<lparr>ref := ''main''\<rparr>]
     = Fails (Errors [''repository owner is empty'', ''self job name is empty'',
                      ''github client is empty'']) \<and>
   violations (applyOptions None
      [\<lambda>sv. sv\<lparr>repo := ''merge-gatekeeper''\<rparr>, \<lambda>sv. sv\<lparr>ref := ''main''\<rparr>]) = 3"
  using CreateValidator_all_violations [of "Some (fixedClient [] [])"
     "[\<lambda>sv. sv\<lparr>repo := ''merge-gatekeeper''\<rparr>, \<lambda>sv. sv\<lparr>owner := ''upsidr''\<rparr>,
      \<lambda>sv. sv\<lparr>ref := ''main''\<rparr>, \<lambda>sv. sv\<lparr>selfJobName := ''gatekeeper''\<rparr>]"]
    CreateValidator_all_violations [of None
     "[\<lambda>sv. sv\<lparr>repo := ''merge-gatekeeper''\<rparr>, \<lambda>sv. sv\<lparr>ref := ''main''\<rparr>]"]
  by (simp add: CreateValidator_def validateFields_def violations_def applyOptions_def
        gatekeeperFor_def)

subsection \<open>C6: when a result succeeds\<close>

text \<open>
  The specification reads: \<open>succeeded\<close> is true exactly when every fetched job, the
  validator's own included, reported \<open>success\<close>. With the validator's own job
  pending and nothing else fetched, \<open>succeeded\<close> is true.
\<close>

theorem Validate_self_pending_counterexample:
  "listGhaStatuses
     (gatekeeperFor [] [\<lparr>Name = Some ''gatekeeper'', Status = Some ''in_progress'', Conclusion = None\<rparr>])
     = Returns [\<lparr>Job = ''gatekeeper'', State = ''pending''\<rparr>] \<and>
   ''pending'' \<noteq> successState \<and>
   Validate
     (gatekeeperFor [] [\<lparr>Name = Some ''gatekeeper'', Status = Some ''in_progress'', Conclusion = None\<rparr>])
     = Returns \<lparr>totalJobs = [], completeJobs = [], succeeded = True\<rparr>"
  by (simp add: example_defs)

text \<open>
  C6, amended. Whenever the fetch returns, \<open>succeeded\<close> is true exactly when every
  fetched job other than the validator's own is in state \<open>success\<close>.
\<close>

theorem Validate_succeeded_iff_non_self_success:
  assumes "listGhaStatuses sv = Returns gs"
  shows "\<exists>st. Validate sv = Returns st \<and>
           (succeeded st \<longleftrightarrow>
              (\<forall>g\<in>set gs. Job g \<noteq> selfJobName sv \<longrightarrow> State g = successState))"
  using assms by (simp add: Validate_Returns validateStatuses_eq tally_full_iff)

theorem Validate_succeeded_iff_non_self_success_witness:
  "listGhaStatuses
     (gatekeeperFor [\<lparr>Context = Some ''gatekeeper'', StatusState = Some ''pending''\<rparr>,
                     \<lparr>Context = Some ''lint'', StatusState = Some ''success''\<rparr>] [])
     = Returns [\<lparr>Job = ''gatekeeper'', State = ''pending''\<rparr>,
                \<lparr>Job = ''lint'', State = ''success''\<rparr>] \<and>
   Validate
     (gatekeeperFor [\<lparr>Context = Some ''gatekeeper'', StatusState = Some ''pending''\<rparr>,
                     \<lparr>Context = Some ''lint'', StatusState = Some ''success''\<rparr>] [])
     = Returns \<lparr>totalJobs = [''lint''], completeJobs = [''lint''], succeeded = True\<rparr>"
proof -
  have h: "listGhaStatuses
     (gatekeeperFor [\<lparr>Context = Some ''gatekeeper'', StatusState = Some ''pending''\<rparr>,
                     \<lparr>Context = Some ''lint'', StatusState = Some ''success''\<rparr>] [])
     = Returns [\<lparr>Job = ''gatekeeper'', State = ''pending''\<rparr>,
                \<lparr>Job = ''lint'', State = ''success''\<rparr>]"
    by (simp add: example_defs)
  from Validate_succeeded_iff_non_self_success [OF h] show ?thesis
    using h by (simp add: example_defs)
qed

subsection \<open>C7: the states of the fetched jobs\<close>

text \<open>
  The specification reads: every fetched job has one of the three states, also when it comes
  from a combined status with an arbitrary state. A combined status in state
  \<open>failure\<close> is fetched as a job in state \<open>failure\<close>.
\<close>

theorem listGhaStatuses_failure_state_counterexample:
  "listGhaStatuses
     (gatekeeperFor [\<lparr>Context = Some ''lint'', StatusState = Some ''failure''\<rparr>] [])
     = Returns [\<lparr>Job = ''lint'', State = ''failure''\<rparr>] \<and>
   ''failure'' \<noteq> successState \<and> ''failure'' \<noteq> errorState \<and> ''failure'' \<noteq> pendingState"
  by (simp add: example_defs)

text \<open>
  C7, amended. Whenever the fetch returns, there is one job for each entry; a job
  that comes from a combined status carries the state of that entry unchanged; a job
  that comes from a check run is in one of the states \<open>success\<close>, \<open>error\<close> and
  \<open>pending\<close>.
\<close>

theorem listGhaStatuses_states:
  assumes "listGhaStatuses sv = Returns gs"
  shows "\<exists>c combined runs.
           client sv = Some c \<and>
           GetCombinedStatus c (owner sv) (repo sv) (ref sv) = Inr combined \<and>
           ListCheckRunsForRef c (owner sv) (repo sv) (ref sv) = Inr runs \<and>
           length gs = length combined + length runs \<and>
           (\<forall>i<length combined. StatusState (combined ! i) = Some (State (gs ! i))) \<and>
           (\<forall>i<length runs.
              State (gs ! (length combined + i)) \<in> {successState, errorState, pendingState})"
proof -
  from assms obtain c combined runs where h:
    "client sv = Some c"
    "GetCombinedStatus c (owner sv) (repo sv) (ref sv) = Inr combined"
    "ListCheckRunsForRef c (owner sv) (repo sv) (ref sv) = Inr runs"
    "\<forall>s\<in>set combined. \<not> malformedStatus s"
    "gs = map fromStatus combined @ map fromRun runs"
    by (rule listGhaStatuses_shape)
  have l: "length gs = length combined + length runs" using h(5) by simp
  have a: "\<forall>i<length combined. StatusState (combined ! i) = Some (State (gs ! i))"
  proof (intro allI impI)
    fix i assume i: "i < length combined"
    then have "\<not> malformedStatus (combined ! i)" using h(4) by simp
    then show "StatusState (combined ! i) = Some (State (gs ! i))"
      using i by (auto simp: h(5) nth_append malformedStatus_def fromStatus_def)
  qed
  have b: "\<forall>i<length runs.
              State (gs ! (length combined + i)) \<in> {successState, errorState, pendingState}"
    using runState_cases by (auto simp: h(5) nth_append fromRun_def)
  from h(1-3) l a b show ?thesis by blast
qed

theorem listGhaStatuses_states_witness:
  "listGhaStatuses
     (gatekeeperFor [\<lparr>Context = Some ''lint'', StatusState = Some ''failure''\<rparr>]
        [\<lparr>Name = Some ''build'', Status = Some ''queued'', Conclusion = None\<rparr>,
         \<lparr>Name = Some ''test'', Status = Some ''completed'', Conclusion = Some ''cancelled''\<rparr>])
     = Returns [\<lparr>Job = ''lint'', State = ''failure''\<rparr>,
                \<lparr>Job = ''build'', State = pendingState\<rparr>,
                \<lparr>Job = ''test'', State = errorState\<rparr>] \<and>
   StatusState \<lparr>Context = Some ''lint'', StatusState = Some ''failure''\<rparr> =
     Some (State ([\<lparr>Job = ''lint'', State = ''failure''\<rparr>,
                   \<lparr>Job = ''build'', State = pendingState\<rparr>,
                   \<lparr>Job = ''test'', State = errorState\<rparr>] ! 0)) \<and>
   State ([\<lparr>Job = ''lint'', State = ''failure''\<rparr>,
           \<lparr>Job = ''build'', State = pendingState\<rparr>,
           \<lparr>Job = ''test'', State = errorState\<rparr>] ! 2)
     \<in> {successState, errorState, pendingState}"
proof -
  have h: "listGhaStatuses
     (gatekeeperFor [\<lparr>Context = Some ''lint'', StatusState = Some ''failure''\<rparr>]
        [\<lparr>Name = Some ''build'', Status = Some ''queued'', Conclusion = None\<rparr>,
         \<lparr>Name = Some ''test'', Status = Some ''completed'', Conclusion = Some ''cancelled''\<rparr>])
     = Returns [\<lparr>Job = ''lint'', State = ''failure''\<rparr>,
                \<lparr>Job = ''build'', State = pendingState\<rparr>,
                \<lparr>Job = ''test'', State = errorState\<rparr>]"
    by (simp add: example_defs)
  from listGhaStatuses_states [OF h] show ?thesis
    using h by simp
qed

subsection \<open>C8: order\<close>

text \<open>
  C8. Whenever the fetch returns, the names of the jobs are the contexts of the
  combined statuses followed by the names of the check runs, each in the order
  received, and the first jobs carry the states of the combined statuses;
  \<open>totalJobs\<close> is that sequence of names without the validator's own;
  \<open>completeJobs\<close> holds the names of the successful ones among them, in the same
  order, and is a subsequence of \<open>totalJobs\<close>.
\<close>

theorem Validate_order:
  assumes "listGhaStatuses sv = Returns gs"
  shows "\<exists>c combined runs st.
           client sv = Some c \<and>
           GetCombinedStatus c (owner sv) (repo sv) (ref sv) = Inr combined \<and>
           ListCheckRunsForRef c (owner sv) (repo sv) (ref sv) = Inr runs \<and>
           map (\<lambda>g. Some (Job g)) gs = map Context combined @ map Name runs \<and>
           map (\<lambda>g. Some (State g)) (take (length combined) gs) = map StatusState combined \<and>
           Validate sv = Returns st \<and>
           totalJobs st = filter (\<lambda>n. n \<noteq> selfJobName sv) (map Job gs) \<and>
           completeJobs st =
             map Job (filter (\<lambda>g. State g = successState)
                        (filter (\<lambda>g. Job g \<noteq> selfJobName sv) gs)) \<and>
           subseq (completeJobs st) (totalJobs st)"
proof -
  from assms obtain c combined runs where h:
    "client sv = Some c"
    "GetCombinedStatus c (owner sv) (repo sv) (ref sv) = Inr combined"
    "ListCheckRunsForRef c (owner sv) (repo sv) (ref sv) = Inr runs"
    "\<forall>s\<in>set combined. \<not> malformedStatus s"
    "\<forall>r\<in>set runs. \<not> malformedRun r \<and> \<not> unconcluded r"
    "gs = map fromStatus combined @ map fromRun runs"
    by (rule listGhaStatuses_shape)
  let ?st = "validateStatuses (selfJobName sv) gs"
  have names: "map (\<lambda>g. Some (Job g)) gs = map Context combined @ map Name runs"
    using h(4,5) by (auto simp: h(6) fromStatus_def fromRun_def malformedStatus_def malformedRun_def)
  have states: "map (\<lambda>g. Some (State g)) (take (length combined) gs) = map StatusState combined"
    using h(4) by (auto simp: h(6) fromStatus_def malformedStatus_def)
  have v: "Validate sv = Returns ?st" using assms by (rule Validate_Returns)
  have t: "totalJobs ?st = filter (\<lambda>n. n \<noteq> selfJobName sv) (map Job gs)"
    by (simp add: validateStatuses_eq filter_map comp_def)
  have cj: "completeJobs ?st =
             map Job (filter (\<lambda>g. State g = successState)
                        (filter (\<lambda>g. Job g \<noteq> selfJobName sv) gs))"
    by (simp add: validateStatuses_eq conj_commute)
  have "subseq (map Job (filter (\<lambda>g. State g = successState)
                        (filter (\<lambda>g. Job g \<noteq> selfJobName sv) gs)))
               (map Job (filter (\<lambda>g. Job g \<noteq> selfJobName sv) gs))"
    by (intro subseq_map subseq_filter_left)
  then have sub: "subseq (completeJobs ?st) (totalJobs ?st)"
    unfolding cj by (simp add: validateStatuses_eq)
  from h(1-3) names states v t cj sub show ?thesis by blast
qed

theorem Validate_order_witness:
  "listGhaStatuses
     (gatekeeperFor [\<lparr>Context = Some ''lint'', StatusState = Some ''success''\<rparr>,
                     \<lparr>Context = Some ''gatekeeper'', StatusState = Some ''pending''\<rparr>]
        [\<lparr>Name = Some ''build'', Status = Some ''queued'', Conclusion = None\<rparr>,
         \<lparr>Name = Some ''test'', Status = Some ''completed'', Conclusion = Some ''success''\<rparr>])
     = Returns [\<lparr>Job = ''lint'', State = ''success''\<rparr>,
                \<lparr>Job = ''gatekeeper'', State = ''pending''\<rparr>,
                \<lparr>Job = ''build'', State = ''pending''\<rparr>,
                \<lparr>Job = ''test'', State = ''success''\<rparr>] \<and>
   Validate
     (gatekeeperFor [\<lparr>Context = Some ''lint'', StatusState = Some ''success''\<rparr>,
                     \<lparr>Context = Some ''gatekeeper'', StatusState = Some ''pending''\<rparr>]
        [\<lparr>Name = Some ''build'', Status = Some ''queued'', Conclusion = None\<rparr>,
         \<lparr>Name = Some ''test'', Status = Some ''completed'', Conclusion = Some ''success''\<rparr>])
     = Returns \<lparr>totalJobs = [''lint'', ''build'', ''test''],
                completeJobs = [''lint'', ''test''], succeeded = False\<rparr> \<and>
   subseq [''lint'', ''test''] [''lint'', ''build'', ''test'']"
proof -
  have h: "listGhaStatuses
     (gatekeeperFor [\<lparr>Context = Some ''lint'', StatusState = Some ''success''\<rparr>,
                     \<lparr>Context = Some ''gatekeeper'', StatusState = Some ''pending''\<rparr>]
        [\<lparr>Name = Some ''build'', Status = Some ''queued'', Conclusion = None\<rparr>,
         \<lparr>Name = Some ''test'', Status = Some ''completed'', Conclusion = Some ''success''\<rparr>])
     = Returns [\<lparr>Job = ''lint'', State = ''success''\<rparr>,
                \<lparr>Job = ''gatekeeper'', State = ''pending''\<rparr>,
                \<lparr>Job = ''build'', State = ''pending''\<rparr>,
                \<lparr>Job = ''test'', State = ''success''\<rparr>]"
    by (simp add: example_defs)
  have v: "Validate
     (gatekeeperFor [\<lparr>Context = Some ''lint'', StatusState = Some ''success''\<rparr>,
                     \<lparr>Context = Some ''gatekeeper'', StatusState = Some ''pending''\<rparr>]
        [\<lparr>Name = Some ''build'', Status = Some ''queued'', Conclusion = None\<rparr>,
         \<lparr>Name = Some ''test'', Status = Some ''completed'', Conclusion = Some ''success''\<rparr>])
     = Returns \<lparr>totalJobs = [''lint'', ''build'', ''test''],
                completeJobs = [''lint'', ''test''], succeeded = False\<rparr>"
    by (simp add: example_defs)
  from Validate_order [OF h] have "subseq [''lint'', ''test''] [''lint'', ''build'', ''test'']"
    unfolding v by auto
  with h v show ?thesis by simp
qed

subsection \<open>C9: no deduplication\<close>

text \<open>
  The specification reads: for any job name reported once as a success and once as pending,
  the name is twice in \<open>totalJobs\<close> and \<open>succeeded\<close> is false. For the validator's
  own name, \<open>totalJobs\<close> is empty and \<open>succeeded\<close> is true.
\<close>

theorem Validate_duplicate_self_counterexample:
  "listGhaStatuses
     (gatekeeperFor [\<lparr>Context = Some ''gatekeeper'', StatusState = Some ''success''\<rparr>,
                     \<lparr>Context = Some ''gatekeeper'', StatusState = Some ''pending''\<rparr>] [])
     = Returns [\<lparr>Job = ''gatekeeper'', State = successState\<rparr>,
                \<lparr>Job = ''gatekeeper'', State = pendingState\<rparr>] \<and>
   Validate
     (gatekeeperFor [\<lparr>Context = Some ''gatekeeper'', StatusState = Some ''success''\<rparr>,
                     \<lparr>Context = Some ''gatekeeper'', StatusState = Some ''pending''\<rparr>] [])
     = Returns \<lparr>totalJobs = [], completeJobs = [], succeeded = True\<rparr>"
  by (simp add: example_defs)

text \<open>
  C9, amended. For any job name other than the validator's own that is fetched once
  in state \<open>success\<close> and once in state \<open>pending\<close>: the name is in \<open>totalJobs\<close>
  as often as it was fetched, at least twice; it is in \<open>completeJobs\<close>; and
  \<open>succeeded\<close> is false.
\<close>

theorem Validate_no_deduplication:
  assumes "listGhaStatuses sv = Returns gs"
    and "name \<noteq> selfJobName sv"
    and "\<lparr>Job = name, State = successState\<rparr> \<in> set gs"
    and "\<lparr>Job = name, State = pendingState\<rparr> \<in> set gs"
  shows "\<exists>st. Validate sv = Returns st \<and>
           length (filter (\<lambda>n. n = name) (totalJobs st)) =
             length (filter (\<lambda>g. Job g = name) gs) \<and>
           2 \<le> length (filter (\<lambda>n. n = name) (totalJobs st)) \<and>
           name \<in> set (completeJobs st) \<and>
           \<not> succeeded st"
proof -
  let ?st = "validateStatuses (selfJobName sv) gs"
  let ?a = "\<lparr>Job = name, State = successState\<rparr>"
  let ?b = "\<lparr>Job = name, State = pendingState\<rparr>"
  have v: "Validate sv = Returns ?st" using assms(1) by (rule Validate_Returns)
  have p: "(\<lambda>g. Job g \<noteq> selfJobName sv \<and> Job g = name) = (\<lambda>g. Job g = name)"
    using assms(2) by auto
  have "filter (\<lambda>n. n = name) (totalJobs ?st) = map Job (filter (\<lambda>g. Job g = name) gs)"
    by (simp add: validateStatuses_eq filter_map comp_def p)
  then have cnt: "length (filter (\<lambda>n. n = name) (totalJobs ?st)) =
                  length (filter (\<lambda>g. Job g = name) gs)"
    by simp
  have ne: "?a \<noteq> ?b" by (simp add: successState_def pendingState_def)
  have "{?a, ?b} \<subseteq> set (filter (\<lambda>g. Job g = name) gs)" using assms(3,4) by simp
  then have "card {?a, ?b} \<le> card (set (filter (\<lambda>g. Job g = name) gs))"
    by (intro card_mono) simp_all
  also have "\<dots> \<le> length (filter (\<lambda>g. Job g = name) gs)" by (rule card_length)
  finally have two: "2 \<le> length (filter (\<lambda>g. Job g = name) gs)" using ne by simp
  have inc: "name \<in> set (completeJobs ?st)"
    using assms(2,3) by (force simp: validateStatuses_eq)
  have "\<not> (\<forall>g\<in>set gs. Job g \<noteq> selfJobName sv \<longrightarrow> State g = successState)"
    using assms(2,4) by (force simp: successState_def pendingState_def)
  then have ns: "\<not> succeeded ?st" by (simp add: validateStatuses_eq tally_full_iff)
  from v cnt two inc ns show ?thesis by simp
qed

theorem Validate_no_deduplication_witness:
  "listGhaStatuses
     (gatekeeperFor [\<lparr>Context = Some ''lint'', StatusState = Some ''success''\<rparr>]
        [\<lparr>Name = Some ''lint'', Status = Some ''in_progress'', Conclusion = None\<rparr>])
     = Returns [\<lparr>Job = ''lint'', State = successState\<rparr>,
                \<lparr>Job = ''lint'', State = pendingState\<rparr>] \<and>
   ''lint'' \<noteq> selfJobName
     (gatekeeperFor [\<lparr>Context = Some ''lint'', StatusState = Some ''success''\<rparr>]
        [\<lparr>Name = Some ''lint'', Status = Some ''in_progress'', Conclusion = None\<rparr>]) \<and>
   Validate
     (gatekeeperFor [\<lparr>Context = Some ''lint'', StatusState = Some ''success''\<rparr>]
        [\<lparr>Name = Some ''lint'', Status = Some ''in_progress'', Conclusion = None\<rparr>])
     = Returns \<lparr>totalJobs = [''lint'', ''lint''], completeJobs = [''lint''],
                succeeded = False\<rparr>"
proof -
  let ?sv = "gatekeeperFor [\<lparr>Context = Some ''lint'', StatusState = Some ''success''\<rparr>]
        [\<lparr>Name = Some ''lint'', Status = Some ''in_progress'', Conclusion = None\<rparr>]"
  let ?gs = "[\<lparr>Job = ''lint'', State = successState\<rparr>,
                \<lparr>Job = ''lint'', State = pendingState\<rparr>]"
  have h: "listGhaStatuses ?sv = Returns ?gs"
    by (simp add: example_defs)
  have n: "''lint'' \<noteq> selfJobName ?sv"
    by (simp add: gatekeeperFor_def)
  have a: "\<lparr>Job = ''lint'', State = successState\<rparr> \<in> set ?gs"
    and b: "\<lparr>Job = ''lint'', State = pendingState\<rparr> \<in> set ?gs"
    by simp_all
  from Validate_no_deduplication [OF h n a b] show ?thesis
    using h n by (simp add: example_defs)
qed

subsection \<open>C10: the conclusion of a completed run\<close>

text \<open>
  C10. When both requests succeed and every entry has its name and its status (or
  context and state): if some completed check run has no conclusion, the fetch and
  \<open>Validate\<close> panic, so the run is neither reported as an error nor given a state;
  if every completed check run has a conclusion, both return.
\<close>

theorem listGhaStatuses_conclusion_precondition:
  assumes "client sv = Some c"
    and "GetCombinedStatus c (owner sv) (repo sv) (ref sv) = Inr combined"
    and "\<forall>s\<in>set combined. \<not> malformedStatus s"
    and "ListCheckRunsForRef c (owner sv) (repo sv) (ref sv) = Inr runs"
    and "\<forall>r\<in>set runs. \<not> malformedRun r"
  shows "if \<exists>r\<in>set runs. Status r = Some checkRunCompletedStatus \<and> Conclusion r = None
         then listGhaStatuses sv = Panics \<and> Validate sv = Panics
         else \<exists>gs st. listGhaStatuses sv = Returns gs \<and> Validate sv = Returns st"
proof (cases "find (\<lambda>r. malformedRun r \<or> unconcluded r) runs")
  case None
  then have "\<not> (\<exists>r\<in>set runs. Status r = Some checkRunCompletedStatus \<and> Conclusion r = None)"
    using assms(5) by (auto simp: find_None_iff unconcluded_def malformedRun_def)
  moreover have "listGhaStatuses sv = Returns (map fromStatus combined @ map fromRun runs)"
    using listGhaStatuses_runs [OF assms(1-4)] None by simp
  ultimately show ?thesis by (simp add: Validate_def)
next
  case (Some r)
  then have r: "r \<in> set runs" "malformedRun r \<or> unconcluded r"
    by (auto dest: find_Some_set)
  then have u: "unconcluded r" "\<not> malformedRun r" using assms(5) by auto
  then have "\<exists>r\<in>set runs. Status r = Some checkRunCompletedStatus \<and> Conclusion r = None"
    using r(1) by (auto simp: unconcluded_def)
  moreover have "listGhaStatuses sv = Panics"
    using listGhaStatuses_runs [OF assms(1-4)] Some u(2) by simp
  ultimately show ?thesis by (simp add: Validate_def)
qed

text \<open>
  A completed run without a conclusion, and the same run concluded.
\<close>

theorem listGhaStatuses_conclusion_precondition_witness:
  "Validate
     (gatekeeperFor [\<lparr>Context = Some ''lint'', StatusState = Some ''success''\<rparr>]
        [\<lparr>Name = Some ''build'', Status = Some ''completed'', Conclusion = None\<rparr>])
     = Panics \<and>
   Validate
     (gatekeeperFor [\<lparr>Context = Some ''lint'', StatusState = Some ''success''\<rparr>]
        [\<lparr>Name = Some ''build'', Status = Some ''completed'', Conclusion = Some ''success''\<rparr>])
     = Returns \<lparr>totalJobs = [''lint'', ''build''], completeJobs = [''lint'', ''build''],
                succeeded = True\<rparr>"
proof -
  let ?combined = "[\<lparr>Context = Some ''lint'', StatusState = Some ''success''\<rparr>]"
  let ?bad = "[\<lparr>Name = Some ''build'', Status = Some ''completed'', Conclusion = None\<rparr>]"
  let ?good = "[\<lparr>Name = Some ''build'', Status = Some ''completed'', Conclusion = Some ''success''\<rparr>]"
  have m: "\<forall>s\<in>set ?combined. \<not> malformedStatus s"
    by (simp add: malformedStatus_def)
  have c1: "client (gatekeeperFor ?combined ?bad) = Some (fixedClient ?combined ?bad)"
    and c2: "client (gatekeeperFor ?combined ?good) = Some (fixedClient ?combined ?good)"
    by (simp_all add: gatekeeperFor_def)
  have g1: "GetCombinedStatus (fixedClient ?combined ?bad)
              (owner (gatekeeperFor ?combined ?bad)) (repo (gatekeeperFor ?combined ?bad))
              (ref (gatekeeperFor ?combined ?bad)) = Inr ?combined"
    and g2: "GetCombinedStatus (fixedClient ?combined ?good)
              (owner (gatekeeperFor ?combined ?good)) (repo (gatekeeperFor ?combined ?good))
              (ref (gatekeeperFor ?combined ?good)) = Inr ?combined"
    and r1: "ListCheckRunsForRef (fixedClient ?combined ?bad)
              (owner (gatekeeperFor ?combined ?bad)) (repo (gatekeeperFor ?combined ?bad))
              (ref (gatekeeperFor ?combined ?bad)) = Inr ?bad"
    and r2: "ListCheckRunsForRef (fixedClient ?combined ?good)
              (owner (gatekeeperFor ?combined ?good)) (repo (gatekeeperFor ?combined ?good))
              (ref (gatekeeperFor ?combined ?good)) = Inr ?good"
    by (simp_all add: fixedClient_def)
  have w1: "\<forall>r\<in>set ?bad. \<not> malformedRun r" and w2: "\<forall>r\<in>set ?good. \<not> malformedRun r"
    by (simp_all add: malformedRun_def)
  from listGhaStatuses_conclusion_precondition [OF c1 g1 m r1 w1]
  have p: "Validate (gatekeeperFor ?combined ?bad) = Panics"
    by (simp add: checkRunCompletedStatus_def)
  from listGhaStatuses_conclusion_precondition [OF c2 g2 m r2 w2]
  have "\<exists>st. Validate (gatekeeperFor ?combined ?good) = Returns st"
    by (simp add: checkRunCompletedStatus_def)
  then have q: "Validate (gatekeeperFor ?combined ?good)
     = Returns \<lparr>totalJobs = [''lint'', ''build''], completeJobs = [''lint'', ''build''],
                succeeded = True\<rparr>"
    by (simp add: example_defs)
  from p q show ?thesis by simp
qed

end
